theory Spec2Isabelle
  imports Main "HOL-Library.Sublist" "HOL-Library.Char_ord" "HOL-Library.List_Lexorder"
    "HOL-Library.AList"
begin

section \<open>Strings\<close>

text \<open>
  Python strings are modelled as \<^typ>\<open>string\<close>; a \<^typ>\<open>char\<close> stands for a code
  point below 256. The three string operations that \<open>clean_artist_name\<close> uses are
  \<open>d in s\<close>, \<open>s.split(d)[0]\<close> and \<open>s.strip()\<close>.
\<close>

text \<open>\<open>d in s\<close>: \<open>d\<close> occurs in \<open>s\<close> as a contiguous substring.\<close>

fun contains :: "string \<Rightarrow> string \<Rightarrow> bool" where
  "contains d [] = (d = [])"
| "contains d (c # cs) = (prefix d (c # cs) \<or> contains d cs)"

text \<open>
  \<open>s.split(d)[0]\<close> for a nonempty separator \<open>d\<close>: the text before the first
  occurrence of \<open>d\<close>, the whole of \<open>s\<close> when \<open>d\<close> does not occur.
\<close>

fun before :: "string \<Rightarrow> string \<Rightarrow> string" where
  "before d [] = []"
| "before d (c # cs) = (if prefix d (c # cs) then [] else c # before d cs)"

text \<open>
  \<open>str.isspace\<close> on code points below 256: TAB, LF, VT, FF, CR, the separators
  0x1C to 0x1F, the space, NEL (0x85) and the no-break space (0xA0).
\<close>

definition isspace :: "char \<Rightarrow> bool" where
  "isspace c =
     (let n = (of_char c :: nat)
      in (9 \<le> n \<and> n \<le> 13) \<or> (28 \<le> n \<and> n \<le> 32) \<or> n = 133 \<or> n = 160)"

text \<open>\<open>s.strip()\<close>: leading and trailing whitespace removed.\<close>

definition strip :: "string \<Rightarrow> string" where
  "strip s = rev (dropWhile isspace (rev (dropWhile isspace s)))"

section \<open>NameNormalizer: \<open>clean_artist_name\<close>\<close>

definition delimiters :: "string list" where
  "delimiters =
     [''&'', ''feat.'', ''featuring'', ''Featuring'', ''FEATURING'', ''Feat.'', ''FEAT.'',
      ''ft.'', ''Ft.'', ''FT.'', ''/'', ''with'', ''WITH'', ''With'', '','', ''And'', ''and'',
      ''And'']"

text \<open>
  The body of the \<open>for\<close> loop: the name is reassigned when the delimiter occurs in
  it. The loop has no \<open>break\<close>, so every delimiter of the list gets its turn on the
  current value of the name.
\<close>

definition clean_step :: "string \<Rightarrow> string \<Rightarrow> string" where
  "clean_step delimiter artist_name =
     (if contains delimiter artist_name then strip (before delimiter artist_name)
      else artist_name)"

definition clean_artist_name :: "string \<Rightarrow> string" where
  "clean_artist_name artist_name = fold clean_step delimiters artist_name"

text \<open>
  The scan as the specification words it, for comparison: it stops at the first delimiter,
  in list order, that occurs in the name.
\<close>

fun first_match_scan :: "string list \<Rightarrow> string \<Rightarrow> string" where
  "first_match_scan [] artist_name = artist_name"
| "first_match_scan (d # ds) artist_name =
     (if contains d artist_name then strip (before d artist_name)
      else first_match_scan ds artist_name)"

section \<open>Values and dictionaries\<close>

text \<open>
  The values held by table cells and dictionary entries. A Python \<open>dict\<close> keeps its
  insertion order and \<open>d.update(e)\<close> overwrites a key in place or appends it, which
  is what \<open>AList.update\<close> does on an association list.
\<close>

datatype cell = Str string | Num int | Flag bool | StrList "string list"

type_synonym pydict = "(string \<times> cell) list"

definition dict_update :: "pydict \<Rightarrow> pydict \<Rightarrow> pydict" where
  "dict_update d e = fold (\<lambda>(k, v). AList.update k v) e d"

section \<open>MetadataClient: \<open>get_track_features\<close>\<close>

text \<open>
  Exceptions. Out of \<open>get_track_features\<close> come whatever the client raises
  (transport, authentication, rate limit) and the \<open>IndexError\<close> of \<open>[0]\<close> on an
  empty list; the others belong to \<open>encode_genres\<close>.
\<close>

datatype exn = ServiceError string | IndexError | KeyError string | ValueError string
  | TypeError

text \<open>
  The part of a search result that the code reads: \<open>track['id']\<close>,
  \<open>track['popularity']\<close>, \<open>track['duration_ms']\<close>,
  \<open>track['album']['release_date']\<close>, the \<open>url\<close>s of \<open>track['album']['images']\<close>,
  \<open>track['explicit']\<close> and the \<open>id\<close>s of \<open>track['artists']\<close>; and of an artist:
  \<open>popularity\<close> and \<open>genres\<close>.
\<close>

record track =
  t_id :: string
  t_popularity :: int
  t_duration_ms :: int
  t_release_date :: string
  t_image_urls :: "string list"
  t_explicit :: bool
  t_artist_ids :: "string list"

record artist_info =
  a_popularity :: int
  a_genres :: "string list"

text \<open>
  The client: \<open>sp.search(q, type='track', limit=1)\<close> gives the list
  \<open>results['tracks']['items']\<close> or raises, \<open>sp.artist(id)\<close> gives the artist or
  raises.
\<close>

record spotify =
  search :: "string \<Rightarrow> exn + track list"
  artist :: "string \<Rightarrow> exn + artist_info"

definition get_track_features :: "spotify \<Rightarrow> string \<Rightarrow> string \<Rightarrow> exn + pydict option" where
  "get_track_features sp track_name artist_name =
     (let query = ''track:'' @ track_name @ '' artist:'' @ artist_name in
      case search sp query of
        Inl e \<Rightarrow> Inl e
      | Inr items \<Rightarrow>
          (case items of
            [] \<Rightarrow> Inr None
          | track # _ \<Rightarrow>
              (case t_artist_ids track of
                [] \<Rightarrow> Inl IndexError
              | artist_id # _ \<Rightarrow>
                  (case artist sp artist_id of
                    Inl e \<Rightarrow> Inl e
                  | Inr artist_info \<Rightarrow>
                      (case t_image_urls track of
                        [] \<Rightarrow> Inl IndexError
                      | url # _ \<Rightarrow>
                          Inr (Some
                            [(''track_id'', Str (t_id track)),
                             (''popularity'', Num (t_popularity track)),
                             (''duration_ms'', Num (t_duration_ms track)),
                             (''album_release_year'', Str (take 4 (t_release_date track))),
                             (''album_cover_url'', Str url),
                             (''explicit'', Flag (t_explicit track)),
                             (''artist_popularity'', Num (a_popularity artist_info)),
                             (''artist_genres'', StrList (a_genres artist_info))]))))))"

section \<open>BatchProcessor: \<open>main\<close>\<close>

text \<open>
  A row of the input table has the two columns that \<open>scrape_billboard_hot_100\<close> builds.
  \<open>df.iterrows()\<close> yields each row with its index label, so a table is the list of
  its labelled rows; the label is the position only in a table that has the default
  index.
\<close>

record row =
  Song :: string
  Artist :: string

type_synonym dataframe = "(int \<times> row) list"

definition to_dict :: "row \<Rightarrow> pydict" where
  "to_dict r = [(''Song'', Str (Song r)), (''Artist'', Str (Artist r))]"

text \<open>What \<open>main\<close> prints (and the pause that follows the first message).\<close>

datatype event =
    Pausing nat
  | ErrorProcessing string string exn
  | SavedBatch nat nat
  | SavedFinalBatch nat nat
  | FailedToProcess nat

text \<open>
  The local variables of \<open>main\<close> and its effects: \<open>files\<close> lists the batch files
  written, in order, each as the number in its name \<open>songs_batch_<number>.csv\<close> and
  the rows it holds; \<open>failed_file\<close> is the content of \<open>failed_tracks.csv\<close> once it is
  written; \<open>printed\<close> is the output.
\<close>

record state =
  current_batch :: "pydict list"
  failed_tracks :: "pydict list"
  batch_number :: nat
  processed_count :: nat
  files :: "(nat \<times> pydict list) list"
  failed_file :: "pydict list option"
  printed :: "event list"

definition init_state :: state where
  "init_state =
     \<lparr>current_batch = [], failed_tracks = [], batch_number = 51, processed_count = 0,
      files = [], failed_file = None, printed = []\<rparr>"

text \<open>Lines 113 to 115: the pause after every 50 rows attempted.\<close>

definition pause_if_due :: "state \<Rightarrow> state" where
  "pause_if_due st =
     (if processed_count st > 0 \<and> processed_count st mod 50 = 0
      then st\<lparr>printed := printed st @ [Pausing (processed_count st)]\<rparr>
      else st)"

text \<open>Lines 135 to 142: the flush inside the loop.\<close>

definition save_batch :: "state \<Rightarrow> state" where
  "save_batch st =
     (let n = batch_number st + 1 in
      st\<lparr>batch_number := n,
         files := files st @ [(n, current_batch st)],
         printed := printed st @ [SavedBatch n (length (current_batch st))],
         current_batch := []\<rparr>)"

text \<open>Lines 147 to 151: the flush after the loop.\<close>

definition save_final_batch :: "state \<Rightarrow> state" where
  "save_final_batch st =
     (let n = batch_number st + 1 in
      st\<lparr>batch_number := n,
         files := files st @ [(n, current_batch st)],
         printed := printed st @ [SavedFinalBatch n (length (current_batch st))]\<rparr>)"

text \<open>\<open>if features:\<close> holds for a dictionary that is not empty.\<close>

definition truthy :: "pydict option \<Rightarrow> bool" where
  "truthy features = (case features of None \<Rightarrow> False | Some f \<Rightarrow> f \<noteq> [])"

text \<open>Line 144: the entry of the failure accumulator for a row.\<close>

definition failed_entry :: "row \<Rightarrow> pydict" where
  "failed_entry r = [(''track_name'', Str (Song r)), (''artist_name'', Str (Artist r))]"

text \<open>
  The body of the loop, lines 113 to 144, for the row \<open>row\<close> with label \<open>index\<close> of
  a table of \<open>n\<close> rows. The service is outside the program and need not answer the
  same query twice in the same way: \<open>sp k\<close> is the client as it answers during the
  lookup of the row that is attempted after \<open>k\<close> earlier attempts.
\<close>

definition process_row :: "(nat \<Rightarrow> spotify) \<Rightarrow> nat \<Rightarrow> int \<times> row \<Rightarrow> state \<Rightarrow> state" where
  "process_row sp n ir st0 =
     (case ir of (index, row) \<Rightarrow>
       (let st = pause_if_due st0;
            clean_artist = clean_artist_name (Artist row)
        in case get_track_features (sp (processed_count st)) (Song row) clean_artist of
             Inl e \<Rightarrow>
               st\<lparr>printed := printed st @ [ErrorProcessing (Song row) clean_artist e],
                  processed_count := processed_count st + 1\<rparr>
           | Inr features \<Rightarrow>
               (let st1 = st\<lparr>processed_count := processed_count st + 1\<rparr> in
                if truthy features then
                  (let row_dict = dict_update (to_dict row) (the features);
                       st2 = st1\<lparr>current_batch := current_batch st1 @ [row_dict]\<rparr>
                   in if length (current_batch st2) = 50 \<or> index = int n - 1
                      then (if current_batch st2 \<noteq> [] then save_batch st2 else st2)
                      else st2)
                else
                  st1\<lparr>failed_tracks := failed_tracks st1 @ [failed_entry row]\<rparr>)))"

definition loop :: "(nat \<Rightarrow> spotify) \<Rightarrow> nat \<Rightarrow> dataframe \<Rightarrow> state \<Rightarrow> state" where
  "loop sp n rows st = fold (process_row sp n) rows st"

definition main :: "(nat \<Rightarrow> spotify) \<Rightarrow> dataframe \<Rightarrow> state" where
  "main sp df =
     (let st = loop sp (length df) df init_state;
          st1 = (if current_batch st \<noteq> [] then save_final_batch st else st)
      in if failed_tracks st1 \<noteq> []
         then st1\<lparr>failed_file := Some (failed_tracks st1),
                 printed := printed st1 @ [FailedToProcess (length (failed_tracks st1))]\<rparr>
         else st1)"

text \<open>
  For the statements: the result of the lookup that \<open>main\<close> makes for a row that is
  attempted after \<open>k\<close> earlier attempts, and the rows of a table paired with their
  positions.
\<close>

definition outcome :: "(nat \<Rightarrow> spotify) \<Rightarrow> nat \<Rightarrow> row \<Rightarrow> exn + pydict option" where
  "outcome sp k r = get_track_features (sp k) (Song r) (clean_artist_name (Artist r))"

definition enriched_of :: "(nat \<Rightarrow> spotify) \<Rightarrow> nat \<times> int \<times> row \<Rightarrow> pydict option" where
  "enriched_of sp kir =
     (case kir of (k, i, r) \<Rightarrow>
       (case outcome sp k r of
          Inr (Some f) \<Rightarrow> Some (dict_update (to_dict r) f)
        | _ \<Rightarrow> None))"

definition failed_of :: "(nat \<Rightarrow> spotify) \<Rightarrow> nat \<times> int \<times> row \<Rightarrow> pydict option" where
  "failed_of sp kir =
     (case kir of (k, i, r) \<Rightarrow>
       (case outcome sp k r of
          Inr None \<Rightarrow> Some (failed_entry r)
        | _ \<Rightarrow> None))"

definition raised :: "(nat \<Rightarrow> spotify) \<Rightarrow> nat \<times> int \<times> row \<Rightarrow> bool" where
  "raised sp kir = (case kir of (k, i, r) \<Rightarrow> isl (outcome sp k r))"

text \<open>The rows written to batch files so far, in the order written.\<close>

definition persisted :: "state \<Rightarrow> pydict list" where
  "persisted st = concat (map snd (files st))"

text \<open>The numbering invariant of the loop: the files written carry 52, 53, ... up to the counter.\<close>

definition numbered :: "state \<Rightarrow> bool" where
  "numbered st \<longleftrightarrow> 51 \<le> batch_number st \<and> map fst (files st) = [52..<Suc (batch_number st)]"

text \<open>
  The sizes of the batch files written, in order, and the invariant of the loop for as long
  as no row carries the label \<open>len(df) - 1\<close>: every file written holds 50 rows and the
  current batch fewer.
\<close>

definition batch_sizes :: "state \<Rightarrow> nat list" where
  "batch_sizes st = map (length \<circ> snd) (files st)"

definition full_batches :: "state \<Rightarrow> bool" where
  "full_batches st \<longleftrightarrow>
     length (current_batch st) < 50 \<and>
     map (length \<circ> snd) (files st) = replicate (length (files st)) 50"

section \<open>GenreEncoder: \<open>encode_genres\<close>\<close>

text \<open>
  A table is its index labels and its columns in order, each column a name and the cells of
  the rows; column names are taken to be distinct, as \<open>df[genre_column]\<close> needs them
  to be to give one column.
\<close>

record table =
  index_labels :: "int list"
  columns :: "(string \<times> cell list) list"

text \<open>
  \<open>Series.apply\<close>, and the iteration over the rows inside the binarizer: the cells in
  order, the first exception ends it.
\<close>

fun apply_col :: "('a \<Rightarrow> exn + 'b) \<Rightarrow> 'a list \<Rightarrow> exn + 'b list" where
  "apply_col f [] = Inr []"
| "apply_col f (x # xs) =
     (case f x of
        Inl e \<Rightarrow> Inl e
      | Inr y \<Rightarrow> (case apply_col f xs of Inl e \<Rightarrow> Inl e | Inr ys \<Rightarrow> Inr (y # ys)))"

text \<open>
  Line 162: \<open>ast.literal_eval(x) if isinstance(x, str) else x\<close>. The parser belongs
  to the Python library and is a parameter \<open>literal_eval\<close> here: the value of the
  literal, or the exception it raises.
\<close>

definition parse_cell :: "(string \<Rightarrow> exn + cell) \<Rightarrow> cell \<Rightarrow> exn + cell" where
  "parse_cell literal_eval x = (case x of Str s \<Rightarrow> literal_eval s | _ \<Rightarrow> Inr x)"

text \<open>
  The labels that the binarizer reads in a cell by iterating over it: the elements of a list,
  the characters of a string; a number or a boolean is not iterable. \<open>genres_of\<close> is
  the same sequence as a total function, for the statements.
\<close>

fun genres_of :: "cell \<Rightarrow> string list" where
  "genres_of (StrList gs) = gs"
| "genres_of (Str s) = map (\<lambda>c. [c]) s"
| "genres_of (Num n) = []"
| "genres_of (Flag b) = []"

fun labels :: "cell \<Rightarrow> exn + string list" where
  "labels (StrList gs) = Inr gs"
| "labels (Str s) = Inr (map (\<lambda>c. [c]) s)"
| "labels (Num n) = Inl TypeError"
| "labels (Flag b) = Inl TypeError"

text \<open>
  \<open>MultiLabelBinarizer().fit_transform(y)\<close> of scikit-learn: \<open>classes_\<close> is the
  sorted list of the distinct labels of all rows, and the matrix has for each row a 1 under
  each class that is among the labels of the row and a 0 under the others. Strings are
  ordered as Python orders them, code point by code point.
\<close>

definition fit_transform :: "string list list \<Rightarrow> string list \<times> int list list" where
  "fit_transform y =
     (let classes = sort (remdups (concat y))
      in (classes, map (\<lambda>ls. map (\<lambda>c. if c \<in> set ls then 1 else 0) classes) y))"

text \<open>
  Lines 166 to 169: the matrix as a table, one column per class, named by the class.
\<close>

definition indicator_columns :: "string list list \<Rightarrow> (string \<times> cell list) list" where
  "indicator_columns y =
     (case fit_transform y of (classes, genres_encoded) \<Rightarrow>
        map (\<lambda>j. (classes ! j, map (\<lambda>row. Num (row ! j)) genres_encoded))
          [0..<length classes])"

text \<open>
  \<open>encode_genres\<close> assigns to a column of the table it is given, so the caller's table
  changes: the result is the caller's table as it is after the call, and the returned table
  or the exception raised. \<open>df[genre_column]\<close> raises \<open>KeyError\<close> when there is no
  such column; the assignment replaces the column where it stands;
  \<open>pd.concat([df, genres_df], axis=1)\<close> puts the indicator columns after the columns
  of the table, the two having the same index.
\<close>

definition encode_genres ::
  "(string \<Rightarrow> exn + cell) \<Rightarrow> table \<Rightarrow> string \<Rightarrow> table \<times> (exn + table)" where
  "encode_genres literal_eval df genre_column =
     (case map_of (columns df) genre_column of
        None \<Rightarrow> (df, Inl (KeyError genre_column))
      | Some col \<Rightarrow>
          (case apply_col (parse_cell literal_eval) col of
             Inl e \<Rightarrow> (df, Inl e)
           | Inr parsed \<Rightarrow>
               (let df1 = df\<lparr>columns := AList.update genre_column parsed (columns df)\<rparr> in
                case apply_col labels parsed of
                  Inl e \<Rightarrow> (df1, Inl e)
                | Inr y \<Rightarrow>
                    (let genres_df =
                           \<lparr>index_labels = index_labels df1, columns = indicator_columns y\<rparr>;
                         result_df =
                           \<lparr>index_labels = index_labels df1,
                            columns = columns df1 @ columns genres_df\<rparr>
                     in (df1, Inr result_df)))))"

section \<open>Example inputs\<close>

definition demo_track :: track where
  "demo_track =
     \<lparr>t_id = ''4uLU6hMCjMI75M1A2tKUQC'', t_popularity = 80, t_duration_ms = 213573,
      t_release_date = ''1987-11-12'', t_image_urls = [''https://i.scdn.co/image/ab67''],
      t_explicit = False, t_artist_ids = [''0gxyHStUsqpMadRV0Di1Qt'']\<rparr>"

definition demo_artist :: artist_info where
  "demo_artist = \<lparr>a_popularity = 70, a_genres = [''dance pop'', ''synthpop'']\<rparr>"

text \<open>A service that finds a track for every query, one that finds none, one that is down.\<close>

definition found_service :: "nat \<Rightarrow> spotify" where
  "found_service k = \<lparr>search = (\<lambda>q. Inr [demo_track]), artist = (\<lambda>a. Inr demo_artist)\<rparr>"

definition no_match_service :: "nat \<Rightarrow> spotify" where
  "no_match_service k = \<lparr>search = (\<lambda>q. Inr []), artist = (\<lambda>a. Inr demo_artist)\<rparr>"

definition failing_service :: "nat \<Rightarrow> spotify" where
  "failing_service k =
     \<lparr>search = (\<lambda>q. Inl (ServiceError ''timeout'')), artist = (\<lambda>a. Inr demo_artist)\<rparr>"

definition demo_row :: row where
  "demo_row = \<lparr>Song = ''Together Forever'', Artist = ''Rick Astley & Friends''\<rparr>"

definition demo_features :: pydict where
  "demo_features =
     [(''track_id'', Str ''4uLU6hMCjMI75M1A2tKUQC''), (''popularity'', Num 80),
      (''duration_ms'', Num 213573), (''album_release_year'', Str ''1987''),
      (''album_cover_url'', Str ''https://i.scdn.co/image/ab67''), (''explicit'', Flag False),
      (''artist_popularity'', Num 70),
      (''artist_genres'', StrList [''dance pop'', ''synthpop''])]"

text \<open>
  Two tables that keep the labels of the table they were sliced from, as \<open>df.iloc[2:5]\<close>
  and \<open>df.iloc[50:101]\<close> do: 3 rows labelled 2, 3, 4 and 51 rows labelled 50 to 100.
\<close>

definition resumed_table :: dataframe where
  "resumed_table = map (\<lambda>k. (int k, demo_row)) [2..<5]"

definition resumed_table_51 :: dataframe where
  "resumed_table_51 = map (\<lambda>k. (int k, demo_row)) [50..<101]"

text \<open>
  A service that finds the first row attempted, has no match for the second and is down
  from then on, and a table of three rows.
\<close>

definition mixed_service :: "nat \<Rightarrow> spotify" where
  "mixed_service k =
     (if k = 0 then found_service k else if k = 1 then no_match_service k else failing_service k)"

definition mixed_table :: dataframe where
  "mixed_table =
     [(0, \<lparr>Song = ''One'', Artist = ''A & B''\<rparr>),
      (1, \<lparr>Song = ''Two'', Artist = ''C feat. D''\<rparr>),
      (2, \<lparr>Song = ''Three'', Artist = ''E''\<rparr>)]"

text \<open>
  A parser that knows three literals, and a table whose genre column holds two
  serializations and one list; the table as it is after the call, and the table returned.
\<close>

definition demo_literal_eval :: "string \<Rightarrow> exn + cell" where
  "demo_literal_eval s =
     (if s = ''[]'' then Inr (StrList [])
      else if s = ''['rock', 'pop']'' then Inr (StrList [''rock'', ''pop''])
      else if s = ''['pop']'' then Inr (StrList [''pop''])
      else Inl (ValueError s))"

definition demo_table :: table where
  "demo_table =
     \<lparr>index_labels = [0, 1, 2],
      columns =
        [(''Song'', [Str ''a'', Str ''b'', Str ''c'']),
         (''artist_genres'', [Str ''['rock', 'pop']'', StrList [''pop'', ''pop''], Str ''[]'']),
         (''popularity'', [Num 80, Num 70, Num 60])]\<rparr>"

definition demo_table_parsed :: table where
  "demo_table_parsed =
     \<lparr>index_labels = [0, 1, 2],
      columns =
        [(''Song'', [Str ''a'', Str ''b'', Str ''c'']),
         (''artist_genres'', [StrList [''rock'', ''pop''], StrList [''pop'', ''pop''], StrList []]),
         (''popularity'', [Num 80, Num 70, Num 60])]\<rparr>"

definition demo_result :: table where
  "demo_result =
     \<lparr>index_labels = [0, 1, 2],
      columns =
        [(''Song'', [Str ''a'', Str ''b'', Str ''c'']),
         (''artist_genres'', [StrList [''rock'', ''pop''], StrList [''pop'', ''pop''], StrList []]),
         (''popularity'', [Num 80, Num 70, Num 60]),
         (''pop'', [Num 1, Num 1, Num 0]),
         (''rock'', [Num 1, Num 0, Num 0])]\<rparr>"

section \<open>Properties of the string operations\<close>

lemma contains_iff_sublist: "contains d s \<longleftrightarrow> sublist d s"
  by (induction s) (auto simp: sublist_Cons_right)

lemma fold_clean_step_absent:
  "\<forall>d\<in>set ds. \<not> contains d a \<Longrightarrow> fold clean_step ds a = a"
  by (induction ds) (simp_all add: clean_step_def)

lemma fold_clean_step_first:
  "\<forall>d'\<in>set ds1. \<not> contains d' a \<Longrightarrow> contains d a \<Longrightarrow>
   fold clean_step (ds1 @ d # ds2) a = fold clean_step ds2 (strip (before d a))"
  by (simp add: fold_clean_step_absent) (simp add: clean_step_def)

lemma first_match_scan_first:
  "\<forall>d'\<in>set ds1. \<not> contains d' a \<Longrightarrow> contains d a \<Longrightarrow>
   first_match_scan (ds1 @ d # ds2) a = strip (before d a)"
  by (induction ds1) simp_all

lemma first_match_scan_absent:
  "\<forall>d\<in>set ds. \<not> contains d a \<Longrightarrow> first_match_scan ds a = a"
  by (induction ds) simp_all

lemma prefix_before: "prefix (before d s) s"
  by (induction s) simp_all

lemma not_contains_before: "d \<noteq> [] \<Longrightarrow> \<not> contains d (before d s)"
proof (induction s)
  case Nil
  then show ?case by simp
next
  case (Cons c cs)
  show ?case
  proof (cases "prefix d (c # cs)")
    case True
    with Cons.prems show ?thesis by simp
  next
    case False
    have "prefix (c # before d cs) (c # cs)"
      by (simp add: prefix_before)
    with False have "\<not> prefix d (c # before d cs)"
      using prefix_order.trans by blast
    with False Cons show ?thesis by simp
  qed
qed

lemma sublist_strip: "sublist (strip s) s"
proof -
  have "suffix (dropWhile isspace s) s"
    by (rule suffix_dropWhile)
  moreover have "prefix (strip s) (dropWhile isspace s)"
    unfolding strip_def
    by (metis suffix_dropWhile suffix_to_prefix rev_rev_ident)
  ultimately show ?thesis
    by (meson prefix_imp_sublist suffix_imp_sublist sublist_order.order_trans)
qed

lemma sublist_clean_step: "sublist (clean_step d a) a"
  unfolding clean_step_def
  by (auto intro: sublist_order.order_trans [OF sublist_strip] prefix_imp_sublist prefix_before)

lemma not_contains_clean_step: "d \<noteq> [] \<Longrightarrow> \<not> contains d (clean_step d a)"
  unfolding clean_step_def
  using not_contains_before [of d a] sublist_strip [of "before d a"]
  by (auto simp: contains_iff_sublist dest: sublist_order.order_trans)

lemma fold_clean_step_no_delimiter:
  "[] \<notin> set ds \<Longrightarrow> \<forall>d\<in>set ds. \<not> contains d (fold clean_step ds a)"
proof (induction ds rule: rev_induct)
  case Nil
  show ?case by simp
next
  case (snoc d ds)
  have "\<not> contains d' (clean_step d (fold clean_step ds a))" if "d' \<in> set ds" for d'
  proof -
    from snoc that have "\<not> sublist d' (fold clean_step ds a)"
      by (simp add: contains_iff_sublist)
    then show ?thesis
      using sublist_clean_step [of d "fold clean_step ds a"]
      by (auto simp: contains_iff_sublist dest: sublist_order.order_trans)
  qed
  moreover have "\<not> contains d (clean_step d (fold clean_step ds a))"
    using snoc.prems by (intro not_contains_clean_step) auto
  ultimately show ?case by auto
qed

text \<open>
  Since every delimiter gets its turn, none of them is left in the result.
\<close>

lemma clean_artist_name_no_delimiter:
  "\<forall>d\<in>set delimiters. \<not> contains d (clean_artist_name a)"
  unfolding clean_artist_name_def
  by (rule fold_clean_step_no_delimiter) (simp add: delimiters_def)

section \<open>The loop of \<open>main\<close>\<close>

lemma get_track_features_nonempty:
  "get_track_features c t a = Inr (Some f) \<Longrightarrow> f \<noteq> []"
  by (auto simp: get_track_features_def Let_def split: sum.splits list.splits)

lemma truthy_outcome: "outcome sp k r = Inr features \<Longrightarrow> truthy features \<longleftrightarrow> features \<noteq> None"
  by (cases features) (auto simp: truthy_def outcome_def dest: get_track_features_nonempty)

lemma processed_count_pause [simp]: "processed_count (pause_if_due st) = processed_count st"
  by (simp add: pause_if_due_def)

lemma process_row_raised:
  assumes "outcome sp (processed_count st) r = Inl e"
  shows "process_row sp n (i, r) st =
    (pause_if_due st)\<lparr>printed := printed (pause_if_due st) @
        [ErrorProcessing (Song r) (clean_artist_name (Artist r)) e],
      processed_count := processed_count st + 1\<rparr>"
  using assms by (simp add: process_row_def outcome_def Let_def)

lemma process_row_no_match:
  assumes "outcome sp (processed_count st) r = Inr None"
  shows "process_row sp n (i, r) st =
    (pause_if_due st)\<lparr>processed_count := processed_count st + 1,
      failed_tracks := failed_tracks (pause_if_due st) @ [failed_entry r]\<rparr>"
  using assms by (simp add: process_row_def outcome_def Let_def truthy_def)

lemma process_row_found:
  assumes "outcome sp (processed_count st) r = Inr (Some f)"
  shows "process_row sp n (i, r) st =
    (let st2 = (pause_if_due st)\<lparr>processed_count := processed_count st + 1,
        current_batch := current_batch (pause_if_due st) @ [dict_update (to_dict r) f]\<rparr>
     in if length (current_batch st2) = 50 \<or> i = int n - 1 then save_batch st2 else st2)"
  using assms truthy_outcome[OF assms]
  by (simp add: process_row_def outcome_def Let_def)

lemma pause_if_due_fields [simp]:
  "current_batch (pause_if_due st) = current_batch st"
  "failed_tracks (pause_if_due st) = failed_tracks st"
  "files (pause_if_due st) = files st"
  "batch_number (pause_if_due st) = batch_number st"
  "failed_file (pause_if_due st) = failed_file st"
  by (simp_all add: pause_if_due_def)

lemma outcome_cases:
  obtains (Raised) e where "outcome sp k r = Inl e"
  | (No_Match) "outcome sp k r = Inr None"
  | (Found) f where "outcome sp k r = Inr (Some f)"
  by (cases "outcome sp k r") (auto intro: option.exhaust)

lemma processed_count_process_row [simp]:
  "processed_count (process_row sp n ir st) = processed_count st + 1"
proof (cases ir)
  case (Pair i r)
  show ?thesis
    by (cases rule: outcome_cases [of sp "processed_count st" r])
      (simp_all add: Pair process_row_raised process_row_no_match process_row_found
        save_batch_def Let_def)
qed

lemma processed_count_loop [simp]:
  "processed_count (loop sp n xs st) = processed_count st + length xs"
  unfolding loop_def by (induction xs arbitrary: st) simp_all

lemma loop_Nil [simp]: "loop sp n [] st = st"
  by (simp add: loop_def)

lemma loop_Cons [simp]: "loop sp n (x # xs) st = loop sp n xs (process_row sp n x st)"
  by (simp add: loop_def)

lemma loop_append: "loop sp n (xs @ ys) st = loop sp n ys (loop sp n xs st)"
  by (simp add: loop_def)

lemma process_row_rows:
  "persisted (process_row sp n (i, r) st) @ current_batch (process_row sp n (i, r) st) =
   persisted st @ current_batch st @
     (case enriched_of sp (processed_count st, i, r) of None \<Rightarrow> [] | Some d \<Rightarrow> [d])"
  by (cases rule: outcome_cases [of sp "processed_count st" r])
    (simp_all add: process_row_raised process_row_no_match process_row_found
      save_batch_def Let_def persisted_def enriched_of_def)

lemma process_row_failed:
  "failed_tracks (process_row sp n (i, r) st) =
   failed_tracks st @
     (case failed_of sp (processed_count st, i, r) of None \<Rightarrow> [] | Some d \<Rightarrow> [d])"
  by (cases rule: outcome_cases [of sp "processed_count st" r])
    (simp_all add: process_row_raised process_row_no_match process_row_found
      save_batch_def Let_def failed_of_def)

lemma loop_rows:
  "persisted (loop sp n xs st) @ current_batch (loop sp n xs st) =
   persisted st @ current_batch st @
     List.map_filter (enriched_of sp) (enumerate (processed_count st) xs)"
proof (induction xs arbitrary: st)
  case Nil
  show ?case by simp
next
  case (Cons x xs)
  obtain i r where x: "x = (i, r)" by (cases x)
  show ?case
    using process_row_rows [of sp n i r st]
    by (simp add: x Cons.IH split: option.splits)
qed

lemma loop_failed:
  "failed_tracks (loop sp n xs st) =
   failed_tracks st @ List.map_filter (failed_of sp) (enumerate (processed_count st) xs)"
proof (induction xs arbitrary: st)
  case Nil
  show ?case by simp
next
  case (Cons x xs)
  obtain i r where x: "x = (i, r)" by (cases x)
  show ?case
    by (simp add: x Cons.IH process_row_failed split: option.splits)
qed

lemma main_persisted:
  "persisted (main sp df) =
   persisted (loop sp (length df) df init_state) @ current_batch (loop sp (length df) df init_state)"
  by (simp add: main_def Let_def save_final_batch_def persisted_def)

lemma main_failed_tracks:
  "failed_tracks (main sp df) = failed_tracks (loop sp (length df) df init_state)"
  by (simp add: main_def Let_def save_final_batch_def)

lemma outcome_partition:
  "length (List.map_filter (enriched_of sp) kxs) + length (List.map_filter (failed_of sp) kxs)
     + length (filter (raised sp) kxs) = length kxs"
proof (induction kxs)
  case Nil
  show ?case by simp
next
  case (Cons x kxs)
  obtain k i r where x: "x = (k, i, r)" by (cases x)
  from Cons show ?case
    by (cases rule: outcome_cases [of sp k r])
      (simp_all add: x enriched_of_def failed_of_def raised_def)
qed

lemma failed_file_loop [simp]: "failed_file (loop sp n xs st) = failed_file st"
proof (induction xs arbitrary: st)
  case Nil
  show ?case by simp
next
  case (Cons x xs)
  obtain i r where x: "x = (i, r)" by (cases x)
  have "failed_file (process_row sp n (i, r) st) = failed_file st"
    by (cases rule: outcome_cases [of sp "processed_count st" r])
      (simp_all add: process_row_raised process_row_no_match process_row_found
        save_batch_def Let_def)
  then show ?case by (simp add: x Cons.IH)
qed

lemma main_failed_file:
  "failed_file (main sp df) =
     (if failed_tracks (main sp df) = [] then None else Some (failed_tracks (main sp df)))"
  by (simp add: main_def Let_def save_final_batch_def) (simp add: init_state_def)

lemma map_filter_failed_of:
  "List.map_filter (failed_of sp) kxs =
   map (\<lambda>(k, i, r). [(''track_name'', Str (Song r)), (''artist_name'', Str (Artist r))])
     (filter (\<lambda>(k, i, r).
        get_track_features (sp k) (Song r) (clean_artist_name (Artist r)) = Inr None) kxs)"
proof (induction kxs)
  case Nil
  show ?case by simp
next
  case (Cons x kxs)
  obtain k i r where x: "x = (k, i, r)" by (cases x)
  from Cons show ?case
    by (cases rule: outcome_cases [of sp k r])
      (simp_all add: x failed_of_def failed_entry_def outcome_def)
qed

lemma outcome_found_service:
  "outcome found_service k r = Inr (Some demo_features)"
  by (simp add: outcome_def get_track_features_def found_service_def demo_track_def
      demo_artist_def demo_features_def)

lemma outcome_trichotomy:
  "(enriched_of sp x \<noteq> None \<and> failed_of sp x = None \<and> \<not> raised sp x) \<or>
   (enriched_of sp x = None \<and> failed_of sp x \<noteq> None \<and> \<not> raised sp x) \<or>
   (enriched_of sp x = None \<and> failed_of sp x = None \<and> raised sp x)"
proof -
  obtain k i r where x: "x = (k, i, r)" by (cases x)
  show ?thesis
    by (cases rule: outcome_cases [of sp k r])
      (simp_all add: x enriched_of_def failed_of_def raised_def)
qed

lemma mixed_outcomes:
  "outcome mixed_service 0 r = Inr (Some demo_features)"
  "outcome mixed_service (Suc 0) r = Inr None"
  "2 \<le> k \<Longrightarrow> outcome mixed_service k r = Inl (ServiceError ''timeout'')"
proof -
  show "outcome mixed_service 0 r = Inr (Some demo_features)"
    using outcome_found_service [of 0 r]
    by (simp add: mixed_service_def outcome_def)
  show "outcome mixed_service (Suc 0) r = Inr None"
    by (simp add: mixed_service_def outcome_def get_track_features_def no_match_service_def)
  show "outcome mixed_service k r = Inl (ServiceError ''timeout'')" if "2 \<le> k"
    using that
    by (simp add: mixed_service_def outcome_def get_track_features_def failing_service_def)
qed

section \<open>Batch numbers\<close>

lemma numbered_init: "numbered init_state"
  by (simp add: numbered_def init_state_def)

lemma numbered_pause [simp]: "numbered (pause_if_due st) = numbered st"
  by (simp add: numbered_def)

lemma numbered_save_batch: "numbered st \<Longrightarrow> numbered (save_batch st)"
  by (simp add: numbered_def save_batch_def Let_def)

lemma numbered_save_final_batch: "numbered st \<Longrightarrow> numbered (save_final_batch st)"
  by (simp add: numbered_def save_final_batch_def Let_def)

lemma numbered_process_row: "numbered st \<Longrightarrow> numbered (process_row sp n ir st)"
proof (cases ir)
  case (Pair i r)
  assume st: "numbered st"
  have *: "numbered (save_batch (st'\<lparr>processed_count := c, current_batch := b\<rparr>))"
    if "numbered st'" for st' c b
    using that by (simp add: numbered_def save_batch_def Let_def)
  show ?thesis
    using st
    by (cases rule: outcome_cases [of sp "processed_count st" r])
      (auto simp: Pair process_row_raised process_row_no_match process_row_found Let_def *,
       simp_all add: numbered_def)
qed

lemma numbered_loop: "numbered st \<Longrightarrow> numbered (loop sp n xs st)"
  by (induction xs arbitrary: st) (simp_all add: numbered_process_row)

lemma numbered_report [simp]:
  "numbered (st\<lparr>failed_file := x, printed := y\<rparr>) = numbered st"
  by (simp add: numbered_def)

lemma numbered_main: "numbered (main sp df)"
proof -
  have "numbered (loop sp (length df) df init_state)"
    by (rule numbered_loop [OF numbered_init])
  then show ?thesis
    by (simp add: main_def Let_def numbered_save_final_batch)
qed

section \<open>Batch sizes\<close>

lemma full_batches_init: "full_batches init_state"
  by (simp add: full_batches_def init_state_def)

lemma full_batches_process_row:
  assumes "full_batches st" and "i \<noteq> int n - 1"
  shows "full_batches (process_row sp n (i, r) st)"
proof (cases rule: outcome_cases [of sp "processed_count st" r])
  case (Raised e)
  with assms(1) show ?thesis
    by (simp add: process_row_raised full_batches_def)
next
  case No_Match
  with assms(1) show ?thesis
    by (simp add: process_row_no_match full_batches_def)
next
  case (Found f)
  from assms show ?thesis
    by (auto simp: process_row_found [OF Found] Let_def save_batch_def full_batches_def
        replicate_append_same)
qed

lemma full_batches_loop:
  "full_batches st \<Longrightarrow> int n - 1 \<notin> fst ` set xs \<Longrightarrow> full_batches (loop sp n xs st)"
proof (induction xs arbitrary: st)
  case Nil
  then show ?case by simp
next
  case (Cons x xs)
  obtain i r where x: "x = (i, r)" by (cases x)
  from Cons.prems have "full_batches (process_row sp n (i, r) st)"
    by (intro full_batches_process_row) (simp_all add: x)
  with Cons.prems show ?case by (simp add: x Cons.IH)
qed

lemma full_batches_persisted:
  "full_batches st \<Longrightarrow> length (persisted st) = 50 * length (files st)"
proof -
  assume "full_batches st"
  then have m: "map (length \<circ> snd) (files st) = replicate (length (files st)) 50"
    by (simp add: full_batches_def)
  have "length (persisted st) = sum_list (map (length \<circ> snd) (files st))"
    by (simp add: persisted_def length_concat)
  also have "\<dots> = 50 * length (files st)"
    unfolding m by (simp add: sum_list_replicate)
  finally show ?thesis .
qed

lemma map_filter_snoc:
  "List.map_filter g (xs @ [x]) =
   List.map_filter g xs @ (case g x of None \<Rightarrow> [] | Some y \<Rightarrow> [y])"
  by (induction xs) (simp_all split: option.splits)

lemma batch_sizes_main:
  "batch_sizes (main sp df) =
   (let st = loop sp (length df) df init_state
    in batch_sizes st @ (if current_batch st = [] then [] else [length (current_batch st)]))"
  by (simp add: main_def Let_def batch_sizes_def save_final_batch_def)

lemma div_mod_50:
  fixes k c :: nat
  assumes "c < 50"
  shows "(50 * k + c) div 50 = k" and "(50 * k + c) mod 50 = c"
  using assms by simp_all

lemma main_batch_sizes_positional:
  assumes "int (length df) - 1 \<notin> fst ` set (butlast df)"
  shows "batch_sizes (main sp df) =
    (let S = length (List.map_filter (enriched_of sp) (enumerate 0 df))
     in replicate (S div 50) 50 @ (if S mod 50 = 0 then [] else [S mod 50]))"
proof (cases df rule: rev_cases)
  case Nil
  then show ?thesis
    by (simp add: batch_sizes_main) (simp add: batch_sizes_def init_state_def)
next
  case (snoc xs x)
  obtain i r where x: "x = (i, r)" by (cases x)
  define n where "n = length df"
  define st where "st = loop sp n xs init_state"
  define k where "k = length (files st)"
  define c where "c = length (current_batch st)"
  define S' where "S' = length (List.map_filter (enriched_of sp) (enumerate 0 xs))"
  have fb: "full_batches st"
    unfolding st_def using assms
    by (intro full_batches_loop full_batches_init) (simp add: snoc n_def)
  have c50: "c < 50" and sizes: "batch_sizes st = replicate k 50"
    using fb by (simp_all add: full_batches_def c_def k_def batch_sizes_def)
  have "persisted st @ current_batch st = List.map_filter (enriched_of sp) (enumerate 0 xs)"
    using loop_rows [of sp n xs init_state]
    by (simp add: st_def init_state_def persisted_def)
  then have "length (persisted st) + c = S'"
    by (metis S'_def c_def length_append)
  then have S': "S' = 50 * k + c"
    using full_batches_persisted [OF fb] by (simp add: k_def)
  have pc: "processed_count st = length xs"
    by (simp add: st_def init_state_def)
  have l: "loop sp n df init_state = process_row sp n (i, r) st"
    by (simp add: snoc x loop_append st_def)
  have S: "length (List.map_filter (enriched_of sp) (enumerate 0 df)) =
      S' + (case enriched_of sp (length xs, i, r) of None \<Rightarrow> 0 | Some y \<Rightarrow> 1)"
    by (simp add: snoc x enumerate_append_eq map_filter_snoc S'_def split: option.splits)
  have fin: "batch_sizes (main sp df) =
      batch_sizes (process_row sp n (i, r) st) @
        (if current_batch (process_row sp n (i, r) st) = [] then []
         else [length (current_batch (process_row sp n (i, r) st))])"
    using batch_sizes_main [of sp df] by (simp add: Let_def n_def [symmetric] l)
  have sizes': "map (length \<circ> snd) (files st) = replicate k 50"
    using sizes by (simp add: batch_sizes_def)
  show ?thesis
  proof (cases rule: outcome_cases [of sp "length xs" r])
    case (Raised e)
    then have "batch_sizes (main sp df) = replicate k 50 @ (if c = 0 then [] else [c])"
      unfolding fin using sizes'
      by (simp add: process_row_raised pc c_def batch_sizes_def)
    moreover have "length (List.map_filter (enriched_of sp) (enumerate 0 df)) = 50 * k + c"
      using Raised by (simp add: S S' enriched_of_def)
    ultimately show ?thesis
      using c50 by (simp add: Let_def)
  next
    case No_Match
    then have "batch_sizes (main sp df) = replicate k 50 @ (if c = 0 then [] else [c])"
      unfolding fin using sizes'
      by (simp add: process_row_no_match pc c_def batch_sizes_def)
    moreover have "length (List.map_filter (enriched_of sp) (enumerate 0 df)) = 50 * k + c"
      using No_Match by (simp add: S S' enriched_of_def)
    ultimately show ?thesis
      using c50 by (simp add: Let_def)
  next
    case (Found f)
    then have o: "outcome sp (processed_count st) r = Inr (Some f)"
      by (simp add: pc)
    have "batch_sizes (main sp df) = replicate k 50 @ [Suc c]"
      unfolding fin using sizes'
      by (simp add: process_row_found [OF o] c_def batch_sizes_def Let_def save_batch_def)
    moreover have "length (List.map_filter (enriched_of sp) (enumerate 0 df)) = 50 * k + Suc c"
      using Found by (simp add: S S' enriched_of_def)
    ultimately show ?thesis
    proof (cases "Suc c = 50")
      case True
      assume b: "batch_sizes (main sp df) = replicate k 50 @ [Suc c]"
        and e: "length (List.map_filter (enriched_of sp) (enumerate 0 df)) = 50 * k + Suc c"
      from e True have "length (List.map_filter (enriched_of sp) (enumerate 0 df)) = 50 * Suc k"
        by simp
      with b True show ?thesis
        by (simp add: Let_def replicate_append_same)
    next
      case False
      assume b: "batch_sizes (main sp df) = replicate k 50 @ [Suc c]"
        and e: "length (List.map_filter (enriched_of sp) (enumerate 0 df)) = 50 * k + Suc c"
      from False c50 have "Suc c < 50" by simp
      with b e show ?thesis
        by (simp add: Let_def del: mult_Suc_right)
    qed
  qed
qed

lemma loop_found_block:
  assumes "\<And>k r. \<exists>f. outcome sp k r = Inr (Some f)"
    and "int n - 1 \<notin> fst ` set xs"
    and "length (current_batch st) + length xs < 50"
  shows "files (loop sp n xs st) = files st \<and>
         batch_number (loop sp n xs st) = batch_number st \<and>
         failed_tracks (loop sp n xs st) = failed_tracks st \<and>
         length (current_batch (loop sp n xs st)) = length (current_batch st) + length xs"
  using assms(2,3)
proof (induction xs arbitrary: st)
  case Nil
  show ?case by simp
next
  case (Cons x xs)
  obtain i r where x: "x = (i, r)" by (cases x)
  obtain f where f: "outcome sp (processed_count st) r = Inr (Some f)"
    using assms(1) by blast
  define st' where "st' = process_row sp n (i, r) st"
  have s: "files st' = files st" "batch_number st' = batch_number st"
    "failed_tracks st' = failed_tracks st"
    "length (current_batch st') = Suc (length (current_batch st))"
    using Cons.prems by (simp_all add: st'_def process_row_found [OF f] Let_def x)
  have "files (loop sp n xs st') = files st' \<and>
         batch_number (loop sp n xs st') = batch_number st' \<and>
         failed_tracks (loop sp n xs st') = failed_tracks st' \<and>
         length (current_batch (loop sp n xs st')) = length (current_batch st') + length xs"
    using Cons.prems by (intro Cons.IH) (simp_all add: s)
  then show ?case
    by (simp add: x st'_def [symmetric] s)
qed

lemma upt_50_101: "[50..<101] = 50 # [51..<100] @ [100::nat]"
  by (simp add: upt_rec [of 50] upt_Suc_append [of 51 100, simplified])

lemma sizes_zip:
  "map (\<lambda>(n, b). (n, length b)) fs = zip (map fst fs) (map (length \<circ> snd) fs)"
  by (induction fs) auto

lemma default_index_positional:
  assumes "map fst df = map int [0..<length df]"
  shows "int (length df) - 1 \<notin> fst ` set (butlast df)"
proof
  assume "int (length df) - 1 \<in> fst ` set (butlast df)"
  then have "int (length df) - 1 \<in> set (butlast (map fst df))"
    by (simp add: map_butlast [symmetric])
  moreover have "butlast (map fst df) = map int [0..<length df - 1]"
    unfolding assms by (simp add: butlast_conv_take take_map)
  ultimately show False by auto
qed

lemma map_filter_all_found:
  "\<forall>x\<in>set kxs. enriched_of sp x \<noteq> None \<Longrightarrow>
   length (List.map_filter (enriched_of sp) kxs) = length kxs \<and>
   List.map_filter (failed_of sp) kxs = []"
proof (induction kxs)
  case Nil
  show ?case by simp
next
  case (Cons x kxs)
  obtain k i r where x: "x = (k, i, r)" by (cases x)
  from Cons show ?case
    by (cases rule: outcome_cases [of sp k r])
      (simp_all add: x enriched_of_def failed_of_def)
qed

lemma main_batch_sizes_default_index:
  assumes "map fst df = map int [0..<length df]"
  shows "batch_sizes (main sp df) =
    (let S = length (List.map_filter (enriched_of sp) (enumerate 0 df))
     in replicate (S div 50) 50 @ (if S mod 50 = 0 then [] else [S mod 50]))"
  using default_index_positional [OF assms] by (rule main_batch_sizes_positional)

lemma main_51_rows_default_index:
  assumes "map fst df = map int [0..<51]"
    and "\<forall>x\<in>set (enumerate 0 df). enriched_of sp x \<noteq> None"
  shows "map (\<lambda>(n, b). (n, length b)) (files (main sp df)) = [(52, 50), (53, 1)] \<and>
         failed_file (main sp df) = None"
proof -
  have len: "length df = 51"
    using assms(1) by (metis length_map length_upt diff_zero)
  have found: "length (List.map_filter (enriched_of sp) (enumerate 0 df)) = 51"
    and nofail: "List.map_filter (failed_of sp) (enumerate 0 df) = []"
    using map_filter_all_found [OF assms(2)] by (simp_all add: len)
  have "batch_sizes (main sp df) = [50, 1]"
    using main_batch_sizes_default_index [of df sp] assms(1)
    by (simp add: len found Let_def)
  then have sizes: "map (length \<circ> snd) (files (main sp df)) = [50, 1]"
    by (simp add: batch_sizes_def)
  then have l2: "length (files (main sp df)) = 2"
    by (metis length_map length_Cons list.size(3) One_nat_def Suc_1)
  have n: "51 \<le> batch_number (main sp df)"
    and f: "map fst (files (main sp df)) = [52..<Suc (batch_number (main sp df))]"
    using numbered_main [of sp df] by (simp_all add: numbered_def)
  from f have "length (map fst (files (main sp df))) = Suc (batch_number (main sp df)) - 52"
    by (simp only: length_upt)
  with n l2 have "batch_number (main sp df) = 53" by simp
  with f have nums: "map fst (files (main sp df)) = [52, 53]"
    by (simp add: upt_rec [of 52] upt_rec [of 53])
  have a: "map (\<lambda>(n, b). (n, length b)) (files (main sp df)) = [(52, 50), (53, 1)]"
    by (simp only: sizes_zip nums sizes) simp
  have "failed_tracks (main sp df) = []"
    using loop_failed [of sp "length df" df init_state] nofail
    by (simp add: main_failed_tracks init_state_def)
  then have b: "failed_file (main sp df) = None"
    by (simp add: main_failed_file)
  from a b show ?thesis by simp
qed

section \<open>The encoder\<close>

lemma apply_col_Inr:
  "apply_col f xs = Inr ys \<Longrightarrow>
   length ys = length xs \<and> (\<forall>i<length xs. f (xs ! i) = Inr (ys ! i))"
proof (induction xs arbitrary: ys)
  case Nil
  then show ?case by simp
next
  case (Cons x xs)
  then obtain y ys' where y: "f x = Inr y" and ys': "apply_col f xs = Inr ys'"
    and ys: "ys = y # ys'"
    by (auto split: sum.splits)
  from Cons.IH [OF ys'] y show ?case
    by (auto simp: ys nth_Cons split: nat.splits)
qed

lemma labels_genres_of: "labels x = Inr gs \<Longrightarrow> gs = genres_of x"
  by (cases x) auto

lemma apply_col_labels:
  assumes "apply_col labels xs = Inr y"
  shows "y = map genres_of xs"
proof (rule nth_equalityI)
  show "length y = length (map genres_of xs)"
    using apply_col_Inr [OF assms] by simp
  show "y ! i = map genres_of xs ! i" if "i < length y" for i
    using apply_col_Inr [OF assms] that by (auto dest: labels_genres_of)
qed

lemma indicator_columns_eq:
  "indicator_columns y =
   map (\<lambda>c. (c, map (\<lambda>ls. Num (if c \<in> set ls then 1 else 0)) y)) (sort (remdups (concat y)))"
proof -
  define classes where "classes = sort (remdups (concat y))"
  have "map (\<lambda>j. (classes ! j,
          map (\<lambda>row. Num (row ! j)) (map (\<lambda>ls. map (\<lambda>c. if c \<in> set ls then 1 else 0) classes) y)))
        [0..<length classes] =
      map (\<lambda>j. (classes ! j, map (\<lambda>ls. Num (if classes ! j \<in> set ls then 1 else 0)) y))
        [0..<length classes]"
    by (rule map_cong) simp_all
  also have "\<dots> = map (\<lambda>c. (c, map (\<lambda>ls. Num (if c \<in> set ls then 1 else 0)) y)) classes"
    by (rule nth_equalityI) simp_all
  finally show ?thesis
    by (simp add: indicator_columns_def fit_transform_def Let_def classes_def)
qed

lemma demo_run:
  "encode_genres demo_literal_eval demo_table ''artist_genres'' = (demo_table_parsed, Inr demo_result)"
  by (simp add: encode_genres_def demo_table_def demo_literal_eval_def parse_cell_def
      indicator_columns_eq Let_def demo_table_parsed_def demo_result_def)

lemma encode_genres_success:
  assumes "encode_genres literal_eval df genre_column = (df1, Inr result)"
  obtains col parsed where
    "map_of (columns df) genre_column = Some col"
    "apply_col (parse_cell literal_eval) col = Inr parsed"
    "df1 = df\<lparr>columns := AList.update genre_column parsed (columns df)\<rparr>"
    "apply_col labels parsed = Inr (map genres_of parsed)"
    "result = \<lparr>index_labels = index_labels df,
        columns = columns df1 @ indicator_columns (map genres_of parsed)\<rparr>"
proof -
  from assms obtain col where col: "map_of (columns df) genre_column = Some col"
    by (auto simp: encode_genres_def split: option.splits)
  from assms col obtain parsed where
    parsed: "apply_col (parse_cell literal_eval) col = Inr parsed"
    by (auto simp: encode_genres_def split: sum.splits)
  from assms col parsed obtain y where y: "apply_col labels parsed = Inr y"
    by (auto simp: encode_genres_def Let_def split: sum.splits)
  have y': "y = map genres_of parsed"
    using y by (rule apply_col_labels)
  from assms col parsed y
  have "df1 = df\<lparr>columns := AList.update genre_column parsed (columns df)\<rparr>"
    and "result = \<lparr>index_labels = index_labels df,
        columns = columns df1 @ indicator_columns (map genres_of parsed)\<rparr>"
    by (auto simp: encode_genres_def Let_def y')
  with col parsed y show thesis
    by (intro that [of col parsed]) (simp_all add: y')
qed

lemma update_present_keys:
  "map_of al k = Some v' \<Longrightarrow> map fst (AList.update k v al) = map fst al"
  by (induction al) (auto split: if_splits)

lemma update_present_length:
  "map_of al k = Some v' \<Longrightarrow> length (AList.update k v al) = length al"
  by (metis update_present_keys length_map)

lemma update_other_nth:
  "j < length al \<Longrightarrow> fst (al ! j) \<noteq> k \<Longrightarrow> AList.update k v al ! j = al ! j"
proof (induction al arbitrary: j)
  case Nil
  then show ?case by simp
next
  case (Cons a al)
  then show ?case
    by (cases j) auto
qed

lemma indicator_round_trip:
  assumes "i < length y"
  shows "{c. \<exists>vs. (c, vs) \<in> set (indicator_columns y) \<and> vs ! i = Num 1} = set (y ! i)"
proof (intro set_eqI iffI)
  fix c
  assume "c \<in> {c. \<exists>vs. (c, vs) \<in> set (indicator_columns y) \<and> vs ! i = Num 1}"
  then obtain vs where "(c, vs) \<in> set (indicator_columns y)" and one: "vs ! i = Num 1"
    by blast
  then have "vs = map (\<lambda>ls. Num (if c \<in> set ls then 1 else 0)) y"
    by (auto simp: indicator_columns_eq)
  with one assms show "c \<in> set (y ! i)"
    by (simp split: if_splits)
next
  fix c
  assume c: "c \<in> set (y ! i)"
  with assms have "c \<in> set (concat y)"
    by (auto intro: nth_mem)
  then have "(c, map (\<lambda>ls. Num (if c \<in> set ls then 1 else 0)) y) \<in> set (indicator_columns y)"
    by (simp add: indicator_columns_eq image_iff)
  moreover have "map (\<lambda>ls. Num (if c \<in> set ls then 1 else 0)) y ! i = Num 1"
    using assms c by simp
  ultimately show "c \<in> {c. \<exists>vs. (c, vs) \<in> set (indicator_columns y) \<and> vs ! i = Num 1}"
    by blast
qed

lemma indicator_columns_sets:
  assumes "map set y' = map set y"
  shows "indicator_columns y' = indicator_columns y"
proof -
  have "set (concat y') = \<Union> (set (map set y'))" and "set (concat y) = \<Union> (set (map set y))"
    by simp_all
  with assms have "set (concat y') = set (concat y)"
    by simp
  then have classes: "sort (remdups (concat y')) = sort (remdups (concat y))"
    by (simp add: sorted_list_of_set_sort_remdups [symmetric])
  have "map (\<lambda>ls. Num (if c \<in> set ls then 1 else 0)) y' =
      map (\<lambda>ls. Num (if c \<in> set ls then 1 else 0)) y" for c
  proof -
    have "map (\<lambda>ls. Num (if c \<in> set ls then 1 else 0)) y' =
        map (\<lambda>S. Num (if c \<in> S then 1 else 0)) (map set y')"
      by simp
    also have "\<dots> = map (\<lambda>S. Num (if c \<in> S then 1 else 0)) (map set y)"
      by (simp only: assms)
    finally show ?thesis by simp
  qed
  with classes show ?thesis
    by (simp add: indicator_columns_eq)
qed

section \<open>Claims about \<open>clean_artist_name\<close>\<close>

text \<open>
  C2, as the specification states it: on the first delimiter found the name is truncated
  and trimmed and the scan stops, so that no later-listed delimiter is applied to the
  truncated result. The code has no \<open>break\<close>: on \<open>A, B & C\<close> the first delimiter
  found is \<open>&\<close>, which leaves \<open>A, B\<close>, and the comma, listed later, truncates that
  again to \<open>A\<close>.
\<close>

theorem clean_artist_name_stops_counterexample:
  "contains ''&'' ''A, B & C'' \<and>
   first_match_scan delimiters ''A, B & C'' = ''A, B'' \<and>
   clean_artist_name ''A, B & C'' = ''A'' \<and>
   clean_artist_name ''A, B & C'' \<noteq> first_match_scan delimiters ''A, B & C''"
  by (simp add: clean_artist_name_def delimiters_def clean_step_def strip_def isspace_def)

text \<open>
  C2, amended: for an artist string that contains a delimiter, let \<open>d\<close> be the first
  delimiter, in list order, that occurs in it. The string is truncated to the text before
  the first occurrence of \<open>d\<close> and trimmed (which is where the scan of the specification
  stops), and the scan then goes on: every delimiter listed after \<open>d\<close> is applied, in
  order, to the already truncated result.
\<close>

theorem clean_artist_name_first_then_rest:
  assumes "delimiters = ds1 @ d # ds2"
    and "\<forall>d'\<in>set ds1. \<not> contains d' a"
    and "contains d a"
  shows "first_match_scan delimiters a = strip (before d a) \<and>
         clean_artist_name a = fold clean_step ds2 (strip (before d a))"
proof
  show "first_match_scan delimiters a = strip (before d a)"
    unfolding assms(1)
    using assms(2,3) by (rule first_match_scan_first)
  show "clean_artist_name a = fold clean_step ds2 (strip (before d a))"
    unfolding clean_artist_name_def assms(1)
    using assms(2,3) by (rule fold_clean_step_first)
qed

theorem clean_artist_name_first_then_rest_witness:
  "delimiters = [''&''] @ ''feat.'' # drop 2 delimiters \<and>
   \<not> (\<exists>d'\<in>set [''&'']. contains d' ''A, B feat. C'') \<and>
   contains ''feat.'' ''A, B feat. C'' \<and>
   first_match_scan delimiters ''A, B feat. C'' = ''A, B'' \<and>
   clean_artist_name ''A, B feat. C'' = ''A'' \<and>
   fold clean_step (drop 2 delimiters) ''A, B'' = ''A''"
proof -
  have h1: "delimiters = [''&''] @ ''feat.'' # drop 2 delimiters"
    by (simp add: delimiters_def)
  have h2: "\<forall>d'\<in>set [''&'']. \<not> contains d' ''A, B feat. C''"
    by simp
  have h3: "contains ''feat.'' ''A, B feat. C''"
    by simp
  have h4: "strip (before ''feat.'' ''A, B feat. C'') = ''A, B''"
    by (simp add: strip_def isspace_def)
  have h5: "fold clean_step (drop 2 delimiters) ''A, B'' = ''A''"
    by (simp add: delimiters_def clean_step_def strip_def isspace_def)
  from clean_artist_name_first_then_rest [OF h1 h2 h3] h1 h2 h3 h4 h5
  show ?thesis by simp
qed

text \<open>
  C8, as the specification states it: for a string without any delimiter the result is the
  input trimmed of surrounding whitespace. The code calls \<open>strip\<close> only inside the
  branch of a delimiter that was found, so a string without delimiters keeps its
  surrounding whitespace.
\<close>

theorem clean_artist_name_trimmed_counterexample:
  "\<not> (\<exists>d\<in>set delimiters. contains d '' Adele '') \<and>
   clean_artist_name '' Adele '' = '' Adele '' \<and>
   strip '' Adele '' = ''Adele'' \<and>
   clean_artist_name '' Adele '' \<noteq> strip '' Adele ''"
  by (simp add: clean_artist_name_def delimiters_def clean_step_def strip_def isspace_def)

text \<open>
  C8, amended: for every artist string that contains none of the delimiters,
  \<open>clean_artist_name\<close> returns its input exactly as it is; surrounding whitespace is
  not trimmed.
\<close>

theorem clean_artist_name_identity:
  "\<forall>d\<in>set delimiters. \<not> contains d a \<Longrightarrow> clean_artist_name a = a"
  unfolding clean_artist_name_def by (rule fold_clean_step_absent)

theorem clean_artist_name_identity_witness:
  "\<not> (\<exists>d\<in>set delimiters. contains d '' Daft Punk'') \<and>
   clean_artist_name '' Daft Punk'' = '' Daft Punk''"
proof -
  have h: "\<forall>d\<in>set delimiters. \<not> contains d '' Daft Punk''"
    by (simp add: delimiters_def)
  from clean_artist_name_identity [OF h] h show ?thesis by simp
qed

section \<open>Claims about \<open>main\<close>\<close>

text \<open>
  C1: every input row yields exactly one outcome. The rows of all batch files, read in the
  order written, are exactly the enriched rows of the input rows whose lookup succeeded,
  one entry per such row and in input order, so such a row is in one batch file and in one
  place of it; the failure accumulator holds exactly one entry per input row whose lookup
  found no match; a row whose lookup raised gives an entry to neither. Every row is of
  exactly one of the three kinds, and the three kinds add up to the table.
\<close>

theorem main_each_row_once:
  "concat (map snd (files (main sp df))) = List.map_filter (enriched_of sp) (enumerate 0 df) \<and>
   failed_tracks (main sp df) = List.map_filter (failed_of sp) (enumerate 0 df) \<and>
   (\<forall>x\<in>set (enumerate 0 df).
      (enriched_of sp x \<noteq> None \<and> failed_of sp x = None \<and> \<not> raised sp x) \<or>
      (enriched_of sp x = None \<and> failed_of sp x \<noteq> None \<and> \<not> raised sp x) \<or>
      (enriched_of sp x = None \<and> failed_of sp x = None \<and> raised sp x)) \<and>
   length (concat (map snd (files (main sp df)))) + length (failed_tracks (main sp df))
     + length (filter (raised sp) (enumerate 0 df)) = length df"
proof -
  have a: "concat (map snd (files (main sp df))) = List.map_filter (enriched_of sp) (enumerate 0 df)"
    using main_persisted [of sp df] loop_rows [of sp "length df" df init_state]
    by (simp add: persisted_def init_state_def)
  have b: "failed_tracks (main sp df) = List.map_filter (failed_of sp) (enumerate 0 df)"
    using loop_failed [of sp "length df" df init_state]
    by (simp add: main_failed_tracks init_state_def)
  have c: "length (concat (map snd (files (main sp df)))) + length (failed_tracks (main sp df))
     + length (filter (raised sp) (enumerate 0 df)) = length df"
    using outcome_partition [of sp "enumerate 0 df"] by (simp add: a b)
  from a b c outcome_trichotomy [of sp] show ?thesis
    by blast
qed

theorem main_each_row_once_witness:
  "files (main mixed_service mixed_table) =
     [(52, [dict_update (to_dict \<lparr>Song = ''One'', Artist = ''A & B''\<rparr>) demo_features])] \<and>
   failed_tracks (main mixed_service mixed_table) =
     [ [(''track_name'', Str ''Two''), (''artist_name'', Str ''C feat. D'')] ] \<and>
   filter (raised mixed_service) (enumerate 0 mixed_table) =
     [(2, 2, \<lparr>Song = ''Three'', Artist = ''E''\<rparr>)] \<and>
   length (concat (map snd (files (main mixed_service mixed_table)))) +
     length (failed_tracks (main mixed_service mixed_table)) +
     length (filter (raised mixed_service) (enumerate 0 mixed_table)) = 3"
proof -
  have e: "enumerate 0 mixed_table =
      [(0, 0, \<lparr>Song = ''One'', Artist = ''A & B''\<rparr>),
       (1, 1, \<lparr>Song = ''Two'', Artist = ''C feat. D''\<rparr>),
       (2, 2, \<lparr>Song = ''Three'', Artist = ''E''\<rparr>)]"
    by (simp add: mixed_table_def)
  have r: "filter (raised mixed_service) (enumerate 0 mixed_table) =
      [(2, 2, \<lparr>Song = ''Three'', Artist = ''E''\<rparr>)]"
    by (simp add: e raised_def mixed_outcomes)
  have f: "files (main mixed_service mixed_table) =
     [(52, [dict_update (to_dict \<lparr>Song = ''One'', Artist = ''A & B''\<rparr>) demo_features])]"
    by (simp add: main_def mixed_table_def init_state_def pause_if_due_def
        process_row_found process_row_no_match process_row_raised mixed_outcomes
        Let_def save_batch_def save_final_batch_def)
  note t = main_each_row_once [of mixed_service mixed_table]
  from t have "failed_tracks (main mixed_service mixed_table) =
      List.map_filter (failed_of mixed_service) (enumerate 0 mixed_table)"
    by blast
  also have "\<dots> = [ [(''track_name'', Str ''Two''), (''artist_name'', Str ''C feat. D'')] ]"
    by (simp add: e failed_of_def mixed_outcomes failed_entry_def)
  finally have ft: "failed_tracks (main mixed_service mixed_table) =
      [ [(''track_name'', Str ''Two''), (''artist_name'', Str ''C feat. D'')] ]" .
  from t have "length (concat (map snd (files (main mixed_service mixed_table)))) +
     length (failed_tracks (main mixed_service mixed_table)) +
     length (filter (raised mixed_service) (enumerate 0 mixed_table)) = length mixed_table"
    by blast
  moreover have "length mixed_table = 3"
    by (simp add: mixed_table_def)
  ultimately show ?thesis
    using f ft r by simp
qed

text \<open>
  C3 at a table of 3 rows labelled 2, 3, 4, all of them found: the first row carries the
  label \<open>len(df) - 1 = 2\<close>, so the loop flushes a batch of one row there, and the two
  other rows go to a second file. Two files are written where \<open>ceil(3 / 50) = 1\<close>,
  and the file that is short is not the last one.
\<close>

theorem main_resumed_table:
  "batch_sizes (main found_service resumed_table) = [1, 2] \<and>
   length (List.map_filter (enriched_of found_service) (enumerate 0 resumed_table)) = 3"
proof -
  have t: "resumed_table = [(2, demo_row), (3, demo_row), (4, demo_row)]"
    by (simp add: resumed_table_def upt_rec [of 2] upt_rec [of 3] upt_rec [of 4])
  have "batch_sizes (main found_service resumed_table) = [1, 2]"
    by (simp add: batch_sizes_main t) (simp add: batch_sizes_def init_state_def pause_if_due_def
        process_row_found [OF outcome_found_service] Let_def save_batch_def)
  moreover have
    "length (List.map_filter (enriched_of found_service) (enumerate 0 resumed_table)) = 3"
    by (simp add: t enriched_of_def outcome_found_service)
  ultimately show ?thesis by simp
qed

text \<open>
  C4: the batch files are numbered 52, 53, ... in the order written, one number per flush,
  and the counter, which starts at 51, ends at 51 plus the number of flushes.
\<close>

theorem main_batch_numbers:
  "map fst (files (main sp df)) = [52..<52 + length (files (main sp df))] \<and>
   batch_number (main sp df) = 51 + length (files (main sp df))"
proof -
  have n: "51 \<le> batch_number (main sp df)"
    and f: "map fst (files (main sp df)) = [52..<Suc (batch_number (main sp df))]"
    using numbered_main [of sp df] by (simp_all add: numbered_def)
  from f have "length (files (main sp df)) = length [52..<Suc (batch_number (main sp df))]"
    by (metis length_map)
  with n have l: "batch_number (main sp df) = 51 + length (files (main sp df))"
    by simp
  from f l show ?thesis by simp
qed

text \<open>
  C6: when the lookup of a row raises, the loop prints the error, counts the row and goes
  on: after the row the current batch, the batch files, the batch counter and the failure
  accumulator are what they were before it. When the lookup finds no match, the failure
  accumulator gets an entry for the row.
\<close>

theorem main_lookup_raised_or_no_match:
  "(\<forall>e. outcome sp (length xs) r = Inl e \<longrightarrow>
      current_batch (loop sp n (xs @ [(i, r)]) init_state) = current_batch (loop sp n xs init_state) \<and>
      files (loop sp n (xs @ [(i, r)]) init_state) = files (loop sp n xs init_state) \<and>
      batch_number (loop sp n (xs @ [(i, r)]) init_state) = batch_number (loop sp n xs init_state) \<and>
      failed_tracks (loop sp n (xs @ [(i, r)]) init_state) = failed_tracks (loop sp n xs init_state) \<and>
      processed_count (loop sp n (xs @ [(i, r)]) init_state) =
        processed_count (loop sp n xs init_state) + 1 \<and>
      printed (loop sp n (xs @ [(i, r)]) init_state) =
        printed (pause_if_due (loop sp n xs init_state)) @
          [ErrorProcessing (Song r) (clean_artist_name (Artist r)) e]) \<and>
   (outcome sp (length xs) r = Inr None \<longrightarrow>
      failed_tracks (loop sp n (xs @ [(i, r)]) init_state) =
        failed_tracks (loop sp n xs init_state) @ [failed_entry r])"
proof -
  define st where "st = loop sp n xs init_state"
  have c: "processed_count st = length xs"
    by (simp add: st_def init_state_def)
  have s: "loop sp n (xs @ [(i, r)]) init_state = process_row sp n (i, r) st"
    by (simp add: loop_append st_def)
  have "process_row sp n (i, r) st =
      (pause_if_due st)\<lparr>printed := printed (pause_if_due st) @
          [ErrorProcessing (Song r) (clean_artist_name (Artist r)) e],
        processed_count := processed_count st + 1\<rparr>"
    if "outcome sp (length xs) r = Inl e" for e
    using that by (intro process_row_raised) (simp add: c)
  moreover have "process_row sp n (i, r) st =
      (pause_if_due st)\<lparr>processed_count := processed_count st + 1,
        failed_tracks := failed_tracks (pause_if_due st) @ [failed_entry r]\<rparr>"
    if "outcome sp (length xs) r = Inr None"
    using that by (intro process_row_no_match) (simp add: c)
  ultimately show ?thesis
    unfolding s st_def [symmetric] by simp
qed

theorem main_lookup_raised_or_no_match_witness:
  "outcome failing_service 0 demo_row = Inl (ServiceError ''timeout'') \<and>
   current_batch (loop failing_service 1 ([] @ [(0, demo_row)]) init_state) = [] \<and>
   files (loop failing_service 1 ([] @ [(0, demo_row)]) init_state) = [] \<and>
   failed_tracks (loop failing_service 1 ([] @ [(0, demo_row)]) init_state) = [] \<and>
   processed_count (loop failing_service 1 ([] @ [(0, demo_row)]) init_state) = 1 \<and>
   printed (loop failing_service 1 ([] @ [(0, demo_row)]) init_state) =
     [ErrorProcessing ''Together Forever'' ''Rick Astley'' (ServiceError ''timeout'')] \<and>
   outcome no_match_service 0 demo_row = Inr None \<and>
   failed_tracks (loop no_match_service 1 ([] @ [(0, demo_row)]) init_state) =
     [ [(''track_name'', Str ''Together Forever''),
       (''artist_name'', Str ''Rick Astley & Friends'')] ]"
proof -
  have c: "clean_artist_name ''Rick Astley & Friends'' = ''Rick Astley''"
    by (simp add: clean_artist_name_def delimiters_def clean_step_def strip_def isspace_def)
  have h1: "outcome failing_service 0 demo_row = Inl (ServiceError ''timeout'')"
    by (simp add: outcome_def get_track_features_def failing_service_def)
  have h2: "outcome no_match_service 0 demo_row = Inr None"
    by (simp add: outcome_def get_track_features_def no_match_service_def)
  from main_lookup_raised_or_no_match [of failing_service "[]" demo_row 1 0]
    main_lookup_raised_or_no_match [of no_match_service "[]" demo_row 1 0] h1 h2
  show ?thesis
    by (simp add: init_state_def pause_if_due_def failed_entry_def demo_row_def c)
qed

text \<open>
  C7 at a table of 51 rows labelled 50 to 100, all of them found: the first row carries the
  label \<open>len(df) - 1 = 50\<close> and is flushed alone as batch 52, and the 50 rows after it
  fill batch 53. The claim gives batch 52 the 50 rows and batch 53 the single one.
\<close>

theorem main_resumed_table_51:
  "map (\<lambda>(n, b). (n, length b)) (files (main found_service resumed_table_51)) = [(52, 1), (53, 50)] \<and>
   failed_file (main found_service resumed_table_51) = None"
proof -
  define mid where "mid = map (\<lambda>k. (int k, demo_row)) [51..<100]"
  define n :: nat where "n = 51"
  have t: "resumed_table_51 = (50, demo_row) # mid @ [(100, demo_row)]"
    by (simp add: resumed_table_51_def upt_50_101 mid_def)
  have len: "length resumed_table_51 = n"
    by (simp add: resumed_table_51_def n_def)
  define st1 where "st1 = process_row found_service n (50, demo_row) init_state"
  define st2 where "st2 = loop found_service n mid st1"
  define st3 where "st3 = process_row found_service n (100, demo_row) st2"
  have l: "loop found_service n resumed_table_51 init_state = st3"
    by (simp add: t loop_append st1_def st2_def st3_def)
  have s1: "map (\<lambda>(n, b). (n, length b)) (files st1) = [(52, 1)]" "batch_number st1 = 52"
    "current_batch st1 = []" "failed_tracks st1 = []"
    by (simp_all add: st1_def process_row_found [OF outcome_found_service] Let_def
        save_batch_def init_state_def n_def)
  have "files st2 = files st1 \<and> batch_number st2 = batch_number st1 \<and>
      failed_tracks st2 = failed_tracks st1 \<and>
      length (current_batch st2) = length (current_batch st1) + length mid"
    unfolding st2_def
  proof (rule loop_found_block)
    show "\<exists>f. outcome found_service k r = Inr (Some f)" for k r
      by (simp add: outcome_found_service)
    show "int n - 1 \<notin> fst ` set mid"
      by (auto simp: mid_def n_def)
    show "length (current_batch st1) + length mid < 50"
      by (simp add: s1 mid_def)
  qed
  then have s2: "files st2 = files st1" "batch_number st2 = 52" "failed_tracks st2 = []"
    "length (current_batch st2) = 49"
    by (simp_all add: s1 mid_def)
  have s3: "map (\<lambda>(n, b). (n, length b)) (files st3) = [(52, 1), (53, 50)]"
    "current_batch st3 = []" "failed_tracks st3 = []"
    using s1(1)
    by (simp_all add: st3_def process_row_found [OF outcome_found_service] Let_def
        save_batch_def s2)
  have f3: "failed_file st3 = None"
    unfolding l [symmetric] by (simp add: init_state_def)
  show ?thesis
    by (simp add: main_def len l s3 f3 Let_def)
qed

text \<open>
  C9: the failure accumulator, and the failure file when one is written, hold for each row
  whose lookup (made with the cleaned artist name) found no match the song title and the
  artist string of the row as they are in the table, not the cleaned name.
\<close>

theorem main_failed_tracks_raw_artist:
  "failed_tracks (main sp df) =
     map (\<lambda>(k, i, r). [(''track_name'', Str (Song r)), (''artist_name'', Str (Artist r))])
       (filter (\<lambda>(k, i, r).
          get_track_features (sp k) (Song r) (clean_artist_name (Artist r)) = Inr None)
          (enumerate 0 df)) \<and>
   failed_file (main sp df) =
     (if failed_tracks (main sp df) = [] then None else Some (failed_tracks (main sp df)))"
proof -
  have a: "failed_tracks (main sp df) = List.map_filter (failed_of sp) (enumerate 0 df)"
    using loop_failed [of sp "length df" df init_state]
    by (simp add: main_failed_tracks init_state_def)
  have b: "failed_file (main sp df) =
     (if failed_tracks (main sp df) = [] then None else Some (failed_tracks (main sp df)))"
    by (rule main_failed_file)
  from a b show ?thesis by (simp only: map_filter_failed_of)
qed

section \<open>Claims about \<open>encode_genres\<close>\<close>

text \<open>
  C5: when \<open>encode_genres\<close> returns a table, the columns appended to it are one column
  per distinct genre label of the (parsed) genre column, in sorted order of the labels; in
  every row the appended columns that hold 1 are exactly the labels of the genre sequence of
  that row; and the appended columns depend on the set of labels of each row only, not on
  their order or repetition in the row.
\<close>

theorem encode_genres_round_trip:
  assumes "encode_genres literal_eval df genre_column = (df1, Inr result)"
  shows "\<exists>parsed.
    map_of (columns df1) genre_column = Some parsed \<and>
    drop (length (columns df)) (columns result) =
      map (\<lambda>c. (c, map (\<lambda>x. Num (if c \<in> set (genres_of x) then 1 else 0)) parsed))
        (sort (remdups (concat (map genres_of parsed)))) \<and>
    sorted (map fst (drop (length (columns df)) (columns result))) \<and>
    distinct (map fst (drop (length (columns df)) (columns result))) \<and>
    set (map fst (drop (length (columns df)) (columns result))) =
      (\<Union>x\<in>set parsed. set (genres_of x)) \<and>
    (\<forall>i<length parsed.
       {c. \<exists>vs. (c, vs) \<in> set (drop (length (columns df)) (columns result)) \<and> vs ! i = Num 1} =
       set (genres_of (parsed ! i))) \<and>
    (\<forall>y. map set y = map (set \<circ> genres_of) parsed \<longrightarrow>
       indicator_columns y = drop (length (columns df)) (columns result))"
proof -
  from assms obtain col parsed where
    col: "map_of (columns df) genre_column = Some col"
    and df1: "df1 = df\<lparr>columns := AList.update genre_column parsed (columns df)\<rparr>"
    and result: "result = \<lparr>index_labels = index_labels df,
        columns = columns df1 @ indicator_columns (map genres_of parsed)\<rparr>"
    by (rule encode_genres_success)
  have len: "length (columns df1) = length (columns df)"
    using col by (simp add: df1 update_present_length)
  have ind: "drop (length (columns df)) (columns result) =
      indicator_columns (map genres_of parsed)"
    by (simp add: result len [symmetric])
  have keys: "map fst (indicator_columns (map genres_of parsed)) =
      sort (remdups (concat (map genres_of parsed)))"
    by (simp add: indicator_columns_eq comp_def)
  have 1: "map_of (columns df1) genre_column = Some parsed"
    by (simp add: df1 update_conv')
  have 2: "indicator_columns (map genres_of parsed) =
      map (\<lambda>c. (c, map (\<lambda>x. Num (if c \<in> set (genres_of x) then 1 else 0)) parsed))
        (sort (remdups (concat (map genres_of parsed))))"
    by (simp add: indicator_columns_eq comp_def)
  have 3: "\<forall>i<length parsed.
       {c. \<exists>vs. (c, vs) \<in> set (indicator_columns (map genres_of parsed)) \<and> vs ! i = Num 1} =
       set (genres_of (parsed ! i))"
    using indicator_round_trip [of _ "map genres_of parsed"] by simp
  have 4: "\<forall>y. map set y = map (set \<circ> genres_of) parsed \<longrightarrow>
       indicator_columns y = indicator_columns (map genres_of parsed)"
    by (auto intro: indicator_columns_sets)
  show ?thesis
    unfolding ind
    by (intro exI [of _ parsed] conjI 1 2 3 4) (simp_all add: keys)
qed

theorem encode_genres_round_trip_witness:
  "encode_genres demo_literal_eval demo_table ''artist_genres'' =
     (demo_table_parsed, Inr demo_result) \<and>
   drop 3 (columns demo_result) =
     [(''pop'', [Num 1, Num 1, Num 0]), (''rock'', [Num 1, Num 0, Num 0])] \<and>
   (\<exists>parsed.
      map_of (columns demo_table_parsed) ''artist_genres'' = Some parsed \<and>
      (\<forall>i<length parsed.
         {c. \<exists>vs. (c, vs) \<in> set (drop (length (columns demo_table)) (columns demo_result)) \<and>
                vs ! i = Num 1} =
         set (genres_of (parsed ! i))))"
proof -
  have "drop 3 (columns demo_result) =
     [(''pop'', [Num 1, Num 1, Num 0]), (''rock'', [Num 1, Num 0, Num 0])]"
    by (simp add: demo_result_def)
  with encode_genres_round_trip [OF demo_run] demo_run show ?thesis
    by blast
qed

text \<open>
  C10: \<open>encode_genres\<close> changes the table it is given: after the call the genre column
  of the caller's table holds, for each cell that was a string, the value that
  \<open>literal_eval\<close> gave for it, and the other cells as they were. Every other column of
  the table is unchanged in the caller's table and stands unchanged, at its place, in the
  returned table, whose first columns are those of the caller's table after the call; the
  index is unchanged.
\<close>

theorem encode_genres_in_place:
  assumes "encode_genres literal_eval df genre_column = (df1, Inr result)"
  shows "\<exists>col parsed.
    map_of (columns df) genre_column = Some col \<and>
    map_of (columns df1) genre_column = Some parsed \<and>
    length parsed = length col \<and>
    (\<forall>i<length col. \<forall>s. col ! i = Str s \<longrightarrow> literal_eval s = Inr (parsed ! i)) \<and>
    (\<forall>i<length col. (\<forall>s. col ! i \<noteq> Str s) \<longrightarrow> parsed ! i = col ! i) \<and>
    index_labels df1 = index_labels df \<and>
    index_labels result = index_labels df \<and>
    map fst (columns df1) = map fst (columns df) \<and>
    take (length (columns df)) (columns result) = columns df1 \<and>
    (\<forall>j<length (columns df). fst (columns df ! j) \<noteq> genre_column \<longrightarrow>
       columns df1 ! j = columns df ! j \<and> columns result ! j = columns df ! j)"
proof -
  from assms obtain col parsed where
    col: "map_of (columns df) genre_column = Some col"
    and parsed: "apply_col (parse_cell literal_eval) col = Inr parsed"
    and df1: "df1 = df\<lparr>columns := AList.update genre_column parsed (columns df)\<rparr>"
    and result: "result = \<lparr>index_labels = index_labels df,
        columns = columns df1 @ indicator_columns (map genres_of parsed)\<rparr>"
    by (rule encode_genres_success)
  have len: "length (columns df1) = length (columns df)"
    using col by (simp add: df1 update_present_length)
  have 1: "map_of (columns df1) genre_column = Some parsed"
    by (simp add: df1 update_conv')
  have 2: "length parsed = length col"
    and p: "\<forall>i<length col. parse_cell literal_eval (col ! i) = Inr (parsed ! i)"
    using apply_col_Inr [OF parsed] by simp_all
  have 3: "\<forall>i<length col. \<forall>s. col ! i = Str s \<longrightarrow> literal_eval s = Inr (parsed ! i)"
    using p by (auto simp: parse_cell_def)
  have 4: "\<forall>i<length col. (\<forall>s. col ! i \<noteq> Str s) \<longrightarrow> parsed ! i = col ! i"
  proof (intro allI impI)
    fix i
    assume i: "i < length col" and n: "\<forall>s. col ! i \<noteq> Str s"
    from p i have "parse_cell literal_eval (col ! i) = Inr (parsed ! i)"
      by simp
    with n show "parsed ! i = col ! i"
      by (cases "col ! i") (simp_all add: parse_cell_def)
  qed
  have 5: "index_labels df1 = index_labels df" "index_labels result = index_labels df"
    by (simp_all add: df1 result)
  have 6: "map fst (columns df1) = map fst (columns df)"
    using col by (simp add: df1 update_present_keys)
  have 7: "take (length (columns df)) (columns result) = columns df1"
    by (simp add: result len [symmetric])
  have 8: "\<forall>j<length (columns df). fst (columns df ! j) \<noteq> genre_column \<longrightarrow>
       columns df1 ! j = columns df ! j \<and> columns result ! j = columns df ! j"
  proof (intro allI impI)
    fix j
    assume j: "j < length (columns df)" and g: "fst (columns df ! j) \<noteq> genre_column"
    then have a: "columns df1 ! j = columns df ! j"
      by (simp add: df1 update_other_nth)
    from j have "columns result ! j = columns df1 ! j"
      by (simp add: result nth_append len)
    with a show "columns df1 ! j = columns df ! j \<and> columns result ! j = columns df ! j"
      by simp
  qed
  show ?thesis
    by (intro exI [of _ col] exI [of _ parsed] conjI col 1 2 3 4 5 6 7 8)
qed

theorem encode_genres_in_place_witness:
  "encode_genres demo_literal_eval demo_table ''artist_genres'' =
     (demo_table_parsed, Inr demo_result) \<and>
   demo_table_parsed \<noteq> demo_table \<and>
   map_of (columns demo_table) ''artist_genres'' =
     Some [Str ''['rock', 'pop']'', StrList [''pop'', ''pop''], Str ''[]''] \<and>
   map_of (columns demo_table_parsed) ''artist_genres'' =
     Some [StrList [''rock'', ''pop''], StrList [''pop'', ''pop''], StrList []] \<and>
   (\<exists>col parsed.
      map_of (columns demo_table) ''artist_genres'' = Some col \<and>
      map_of (columns demo_table_parsed) ''artist_genres'' = Some parsed \<and>
      take (length (columns demo_table)) (columns demo_result) = columns demo_table_parsed \<and>
      (\<forall>j<length (columns demo_table). fst (columns demo_table ! j) \<noteq> ''artist_genres'' \<longrightarrow>
         columns demo_table_parsed ! j = columns demo_table ! j \<and>
         columns demo_result ! j = columns demo_table ! j))"
proof -
  have "demo_table_parsed \<noteq> demo_table"
    and "map_of (columns demo_table) ''artist_genres'' =
      Some [Str ''['rock', 'pop']'', StrList [''pop'', ''pop''], Str ''[]'']"
    and "map_of (columns demo_table_parsed) ''artist_genres'' =
      Some [StrList [''rock'', ''pop''], StrList [''pop'', ''pop''], StrList []]"
    by (simp_all add: demo_table_parsed_def demo_table_def)
  with encode_genres_in_place [OF demo_run] demo_run show ?thesis
    by blast
qed

end
